theory Spec2Isabelle
  imports Complex_Main "HOL-Library.Word" "HOL-Library.Sublist"
begin

unbundle bit_operations_syntax

section \<open>Data model\<close>

text \<open>
  A chunk delivered by \<^verbatim>\<open>reader.read()\<close> is a \<^verbatim>\<open>Uint8Array\<close>: a list of bytes.
  A JavaScript string is a sequence of UTF-16 code units. The line terminator
  the viewers split on is the code unit U+000A.
\<close>

type_synonym byte = "8 word"
type_synonym jschar = "16 word"
type_synonym jsstring = "jschar list"

definition NL :: jschar where
  "NL = 0x0A"

text \<open>
  \<^verbatim>\<open>TextDecoder\<close> is a platform object, not code of the repository. It is taken as a
  parameter: an initial state (\<^verbatim>\<open>new TextDecoder()\<close>), the transition on one byte,
  which returns the code units that byte completes, and the text emitted for a
  pending incomplete sequence when a call without \<^verbatim>\<open>{stream: true}\<close> ends the input.
\<close>

record 'd TextDecoder =
  dinit :: 'd
  dstep :: "'d \<Rightarrow> byte \<Rightarrow> jsstring \<times> 'd"
  dflush :: "'d \<Rightarrow> jsstring"

text \<open>\<^verbatim>\<open>decoder.decode(value, { stream: true })\<close>: text decoded so far, new state.\<close>

fun decode_stream :: "'d TextDecoder \<Rightarrow> 'd \<Rightarrow> byte list \<Rightarrow> jsstring \<times> 'd" where
  "decode_stream dec d [] = ([], d)"
| "decode_stream dec d (b # bs) =
     (let (t, d1) = dstep dec d b;
          (ts, d2) = decode_stream dec d1 bs
      in (t @ ts, d2))"

text \<open>\<^verbatim>\<open>new TextDecoder().decode(bytes)\<close>: one-shot decoding of a whole buffer.\<close>

definition decode :: "'d TextDecoder \<Rightarrow> byte list \<Rightarrow> jsstring" where
  "decode dec bs = (let (t, d) = decode_stream dec (dinit dec) bs in t @ dflush dec d)"

subsection \<open>The UTF-8 instance of the decoder\<close>

text \<open>
  The decoder the browser supplies for \<^verbatim>\<open>new TextDecoder()\<close> is the UTF-8 decoder of
  the WHATWG Encoding Standard in replacement mode: malformed input yields
  U+FFFD, a leading byte order mark is dropped, code points above U+FFFF become
  a surrogate pair. It is used below to run the viewers on concrete bytes.
\<close>

record utf8_state =
  code_point :: nat
  bytes_seen :: nat
  bytes_needed :: nat
  lower_boundary :: nat
  upper_boundary :: nat
  bom_seen :: bool

definition utf8_init :: utf8_state where
  "utf8_init = \<lparr>code_point = 0, bytes_seen = 0, bytes_needed = 0,
                 lower_boundary = 0x80, upper_boundary = 0xBF, bom_seen = False\<rparr>"

definition utf8_reset :: "utf8_state \<Rightarrow> utf8_state" where
  "utf8_reset s = s\<lparr>code_point := 0, bytes_seen := 0, bytes_needed := 0,
                    lower_boundary := 0x80, upper_boundary := 0xBF\<rparr>"

text \<open>Serialising one scalar value: the BOM check, then UTF-16 encoding.\<close>

definition utf8_emit :: "nat \<Rightarrow> utf8_state \<Rightarrow> jsstring \<times> utf8_state" where
  "utf8_emit cp s =
     (if \<not> bom_seen s \<and> cp = 0xFEFF then ([], s\<lparr>bom_seen := True\<rparr>)
      else if cp < 0x10000 then ([of_nat cp], s\<lparr>bom_seen := True\<rparr>)
      else ([of_nat (0xD800 + (cp - 0x10000) div 0x400),
             of_nat (0xDC00 + (cp - 0x10000) mod 0x400)], s\<lparr>bom_seen := True\<rparr>))"

text \<open>The handler on a byte when no sequence is pending.\<close>

definition utf8_lead :: "utf8_state \<Rightarrow> nat \<Rightarrow> jsstring \<times> utf8_state" where
  "utf8_lead s b =
     (if b \<le> 0x7F then utf8_emit b s
      else if 0xC2 \<le> b \<and> b \<le> 0xDF then
        ([], s\<lparr>bytes_needed := 1, code_point := b mod 0x20\<rparr>)
      else if 0xE0 \<le> b \<and> b \<le> 0xEF then
        ([], s\<lparr>lower_boundary := (if b = 0xE0 then 0xA0 else lower_boundary s),
                upper_boundary := (if b = 0xED then 0x9F else upper_boundary s),
                bytes_needed := 2, code_point := b mod 0x10\<rparr>)
      else if 0xF0 \<le> b \<and> b \<le> 0xF4 then
        ([], s\<lparr>lower_boundary := (if b = 0xF0 then 0x90 else lower_boundary s),
                upper_boundary := (if b = 0xF4 then 0x8F else upper_boundary s),
                bytes_needed := 3, code_point := b mod 0x08\<rparr>)
      else utf8_emit 0xFFFD s)"

text \<open>
  The handler on a byte: a byte outside the expected range ends the pending
  sequence with U+FFFD and is then handled again as a first byte.
\<close>

definition utf8_step :: "utf8_state \<Rightarrow> byte \<Rightarrow> jsstring \<times> utf8_state" where
  "utf8_step s w =
     (let b = unat w in
      if bytes_needed s = 0 then utf8_lead s b
      else if b < lower_boundary s \<or> upper_boundary s < b then
        (let (t1, s1) = utf8_emit 0xFFFD (utf8_reset s);
             (t2, s2) = utf8_lead s1 b
         in (t1 @ t2, s2))
      else
        (let s1 = s\<lparr>lower_boundary := 0x80, upper_boundary := 0xBF,
                     code_point := code_point s * 0x40 + b mod 0x40,
                     bytes_seen := bytes_seen s + 1\<rparr>
         in if bytes_seen s1 \<noteq> bytes_needed s1 then ([], s1)
            else utf8_emit (code_point s1) (utf8_reset s1)))"

definition utf8_flush :: "utf8_state \<Rightarrow> jsstring" where
  "utf8_flush s = (if bytes_needed s \<noteq> 0 then fst (utf8_emit 0xFFFD (utf8_reset s)) else [])"

definition utf8 :: "utf8_state TextDecoder" where
  "utf8 = \<lparr>dinit = utf8_init, dstep = utf8_step, dflush = utf8_flush\<rparr>"

text \<open>The bytes of an ASCII string literal, for writing concrete chunks.\<close>

definition bytes :: "string \<Rightarrow> byte list" where
  "bytes s = map (\<lambda>c. of_nat (of_char c)) s"

definition jstr :: "string \<Rightarrow> jsstring" where
  "jstr s = map (\<lambda>c. of_nat (of_char c)) s"

section \<open>String operations of the platform\<close>

text \<open>
  \<^verbatim>\<open>buffer.split('\n')\<close> with a one-code-unit separator: the segments between
  the separators, in order; always at least one segment. The empty case of the
  inner match is never reached.
\<close>

fun splitStr :: "jschar \<Rightarrow> jsstring \<Rightarrow> jsstring list" where
  "splitStr sep [] = [[]]"
| "splitStr sep (c # cs) =
     (if c = sep then [] # splitStr sep cs
      else (case splitStr sep cs of
              [] \<Rightarrow> [[c]]
            | l # ls \<Rightarrow> (c # l) # ls))"

text \<open>
  \<^verbatim>\<open>String.prototype.trim\<close> removes the code units that ECMAScript classes as
  WhiteSpace or LineTerminator from both ends.
\<close>

definition isWhiteSpace :: "jschar \<Rightarrow> bool" where
  "isWhiteSpace c =
     (c = 0x0009 \<or> c = 0x000A \<or> c = 0x000B \<or> c = 0x000C \<or> c = 0x000D \<or> c = 0x0020 \<or>
      c = 0x00A0 \<or> c = 0x1680 \<or> (0x2000 \<le> c \<and> c \<le> 0x200A) \<or> c = 0x2028 \<or>
      c = 0x2029 \<or> c = 0x202F \<or> c = 0x205F \<or> c = 0x3000 \<or> c = 0xFEFF)"

definition trim :: "jsstring \<Rightarrow> jsstring" where
  "trim s = rev (dropWhile isWhiteSpace (rev (dropWhile isWhiteSpace s)))"


text \<open>
  \<^verbatim>\<open>Array.prototype.slice(start, end)\<close> on integer arguments: a negative index
  counts from the end, both are clamped to the array.
\<close>

definition relIndex :: "nat \<Rightarrow> int \<Rightarrow> nat" where
  "relIndex len k = (if k < 0 then nat (max (int len + k) 0) else min (nat k) len)"

definition slice :: "'a list \<Rightarrow> int \<Rightarrow> int \<Rightarrow> 'a list" where
  "slice xs start endIdx =
     (let k = relIndex (length xs) start; final = relIndex (length xs) endIdx
      in take (final - k) (drop k xs))"

section \<open>The viewer state\<close>

text \<open>
  The React state of the component (\<^verbatim>\<open>logLines\<close>, \<^verbatim>\<open>totalBytes\<close>, \<^verbatim>\<open>status\<close>,
  \<^verbatim>\<open>error\<close>, and in the tailing viewer \<^verbatim>\<open>isLive\<close>, \<^verbatim>\<open>isLivePaused\<close>) together
  with the local variables of the read loop of \<^verbatim>\<open>streamLogFile\<close>: \<^verbatim>\<open>buffer\<close>, the
  decoder, and in \<^verbatim>\<open>src/components/LogViewer.tsx\<close> the array \<^verbatim>\<open>allLines\<close>.
  \<^verbatim>\<open>totalBytes\<close> is a JavaScript number holding a count; it is a natural number here.
\<close>

record 'd viewer =
  logLines :: "jsstring list"
  totalBytes :: nat
  status :: string
  error :: "string option"
  isLive :: bool
  isLivePaused :: bool
  buffer :: jsstring
  allLines :: "jsstring list"
  decoder :: 'd

text \<open>
  The state on mount: the \<^verbatim>\<open>useState\<close> defaults. The loop variables are given
  the values \<^verbatim>\<open>streamLogFile\<close> declares them with.
\<close>

definition initialState :: "'d TextDecoder \<Rightarrow> 'd viewer" where
  "initialState dec =
     \<lparr>logLines = [], totalBytes = 0, status = ''Initializing...'', error = None,
      isLive = False, isLivePaused = False, buffer = [], allLines = [],
      decoder = dinit dec\<rparr>"

text \<open>What \<^verbatim>\<open>await reader.read()\<close> gives: a chunk, the end of the stream, or a throw.\<close>

datatype read_result =
  Chunk "byte list"
| Done
| AbortError
| ReadError string

datatype source_type = Remote | Local

text \<open>How opening the reader ends: a reader, an abort, or another throw.\<close>

datatype open_result =
  Opened
| OpenAbort
| OpenError string

definition MAX_DISPLAY_LINES :: nat where
  "MAX_DISPLAY_LINES = 5000"

definition ROW_HEIGHT :: real where
  "ROW_HEIGHT = 22"

section \<open>streamLogFile\<close>

text \<open>
  The statements every variant runs on a chunk:
  \<^verbatim>\<open>setTotalBytes(prev => prev + value.length);
  const chunk = decoder.decode(value, { stream: true });
  buffer += chunk;
  const lines = buffer.split('\n');
  buffer = lines.pop() || '';\<close>
  The result is \<^verbatim>\<open>lines\<close> after the pop, and the state.
\<close>

definition consume :: "'d TextDecoder \<Rightarrow> byte list \<Rightarrow> 'd viewer \<Rightarrow> jsstring list \<times> 'd viewer" where
  "consume dec val st =
     (let (chunk, d) = decode_stream dec (decoder st) val;
          buf = buffer st @ chunk;
          lines = splitStr NL buf
      in (butlast lines,
          st\<lparr>totalBytes := totalBytes st + length val,
             buffer := (if lines = [] then [] else last lines),
             decoder := d\<rparr>))"

text \<open>The catch block of \<^verbatim>\<open>streamLogFile\<close> in the tailing viewer.\<close>

definition catch_stream :: "bool \<Rightarrow> string \<Rightarrow> 'd viewer \<Rightarrow> 'd viewer" where
  "catch_stream aborted msg st =
     (if \<not> aborted then
        st\<lparr>error := Some (''Failed to stream file. This could be a CORS issue, network problem, or the file may not exist. (Details: '' @ msg @ '')''),
           status := ''Error occurred.''\<rparr>
      else st\<lparr>status := ''Stream cancelled.''\<rparr>)"

text \<open>
  The read loop of the tailing viewer. Lines go to \<^verbatim>\<open>logLines\<close> as each chunk is
  split. An empty list of results is a stream whose next read is still pending.
\<close>

fun streamLoop :: "'d TextDecoder \<Rightarrow> 'd viewer \<Rightarrow> read_result list \<Rightarrow> 'd viewer" where
  "streamLoop dec st [] = st"
| "streamLoop dec st (Done # rs) =
     (let st1 = (if buffer st \<noteq> [] then st\<lparr>logLines := logLines st @ [buffer st]\<rparr> else st)
      in st1\<lparr>status := ''Stream finished.''\<rparr>)"
| "streamLoop dec st (Chunk val # rs) =
     (let (lines, st1) = consume dec val st;
          st2 = (if length lines > 0 then st1\<lparr>logLines := logLines st1 @ lines\<rparr> else st1)
      in streamLoop dec st2 rs)"
| "streamLoop dec st (AbortError # rs) = catch_stream True [] st"
| "streamLoop dec st (ReadError msg # rs) = catch_stream False msg st"

text \<open>
  \<^verbatim>\<open>streamLogFile\<close> of the tailing viewer: the resets, the opening of the reader
  (remote fetch or local file), the loop. The size shown by the progress bar is
  not part of the model.
\<close>

definition streamLogFile ::
  "'d TextDecoder \<Rightarrow> source_type \<Rightarrow> open_result \<Rightarrow> read_result list \<Rightarrow> 'd viewer \<Rightarrow> 'd viewer" where
  "streamLogFile dec src opened rs st0 =
     (let st = st0\<lparr>logLines := [], totalBytes := 0, error := None,
                   status := ''Initializing...'', isLive := False, isLivePaused := False\<rparr>
      in case opened of
           OpenAbort \<Rightarrow> catch_stream True [] st
         | OpenError msg \<Rightarrow> catch_stream False msg st
         | Opened \<Rightarrow>
             streamLoop dec
               (st\<lparr>status := (if src = Remote then ''Streaming log data...''
                              else ''Streaming local file...''),
                   buffer := [], decoder := dinit dec\<rparr>) rs)"

subsection \<open>The viewer of src/components/LogViewer.tsx\<close>

definition catch_stream0 :: "bool \<Rightarrow> string \<Rightarrow> 'd viewer \<Rightarrow> 'd viewer" where
  "catch_stream0 aborted msg st =
     (if aborted then st\<lparr>status := ''Stream cancelled.''\<rparr>
      else st\<lparr>error := Some (''Failed to stream file. This is likely a CORS issue, a network problem, or the file may not exist. Please check the browser console for details. Error: '' @ msg),
              status := ''Error occurred.''\<rparr>)"

text \<open>
  \<^verbatim>\<open>if (allLines.length > MAX_DISPLAY_LINES)
    allLines = allLines.slice(allLines.length - MAX_DISPLAY_LINES);\<close>
\<close>

definition trimLines :: "jsstring list \<Rightarrow> jsstring list" where
  "trimLines ls =
     (if length ls > MAX_DISPLAY_LINES
      then slice ls (int (length ls) - int MAX_DISPLAY_LINES) (int (length ls))
      else ls)"

text \<open>
  The read loop of this viewer: lines are collected in \<^verbatim>\<open>allLines\<close>, trimmed to
  the cap, and \<^verbatim>\<open>setLogLines\<close> is called once, when the stream is done.
\<close>

fun streamLoop0 :: "'d TextDecoder \<Rightarrow> 'd viewer \<Rightarrow> read_result list \<Rightarrow> 'd viewer" where
  "streamLoop0 dec st [] = st"
| "streamLoop0 dec st (Done # rs) =
     (let all1 = (if buffer st \<noteq> [] then allLines st @ [buffer st] else allLines st);
          all2 = trimLines all1
      in st\<lparr>allLines := all2, logLines := all2, status := ''Stream finished.''\<rparr>)"
| "streamLoop0 dec st (Chunk val # rs) =
     (let (lines, st1) = consume dec val st;
          st2 = (if length lines > 0 then st1\<lparr>allLines := trimLines (allLines st1 @ lines)\<rparr>
                 else st1)
      in streamLoop0 dec st2 rs)"
| "streamLoop0 dec st (AbortError # rs) = catch_stream0 True [] st"
| "streamLoop0 dec st (ReadError msg # rs) = catch_stream0 False msg st"

definition streamLogFile0 ::
  "'d TextDecoder \<Rightarrow> open_result \<Rightarrow> read_result list \<Rightarrow> 'd viewer \<Rightarrow> 'd viewer" where
  "streamLogFile0 dec opened rs st0 =
     (let st = st0\<lparr>logLines := [], totalBytes := 0, error := None,
                   status := ''Connecting to stream...''\<rparr>
      in case opened of
           OpenAbort \<Rightarrow> catch_stream0 True [] st
         | OpenError msg \<Rightarrow> catch_stream0 False msg st
         | Opened \<Rightarrow>
             streamLoop0 dec
               (st\<lparr>status := ''Streaming log data...'', buffer := [], allLines := [],
                   decoder := dinit dec\<rparr>) rs)"

text \<open>
  The lines the read loop hands on, in order: the \<^verbatim>\<open>lines\<close> of each chunk and,
  when the stream is done, the non-empty \<^verbatim>\<open>buffer\<close>. Both viewers hand on the
  same lines; they differ in where the lines go.
\<close>

fun pushed :: "'d TextDecoder \<Rightarrow> 'd viewer \<Rightarrow> read_result list \<Rightarrow> jsstring list" where
  "pushed dec st [] = []"
| "pushed dec st (Done # rs) = (if buffer st \<noteq> [] then [buffer st] else [])"
| "pushed dec st (Chunk val # rs) =
     (let (lines, st1) = consume dec val st in lines @ pushed dec st1 rs)"
| "pushed dec st (AbortError # rs) = []"
| "pushed dec st (ReadError msg # rs) = []"

section \<open>tailLogFile\<close>

text \<open>
  What one poll receives: \<^verbatim>\<open>fetch\<close> throws, or it returns a response with a status
  code whose \<^verbatim>\<open>arrayBuffer()\<close> gives the body or throws (\<open>None\<close>).
\<close>

datatype poll_result =
  FetchError
| Response nat "byte list option"

definition catch_tail :: "'d viewer \<Rightarrow> 'd viewer" where
  "catch_tail st = st\<lparr>status := ''Live (Error)'', isLive := False\<rparr>"

text \<open>
  The polls that end in the catch block: \<^verbatim>\<open>fetch\<close> throws, the status is none of
  416, 206 and 200, or reading the body throws.
\<close>

definition pollFailed :: "poll_result \<Rightarrow> bool" where
  "pollFailed resp =
     (case resp of
        FetchError \<Rightarrow> True
      | Response code body \<Rightarrow> code \<noteq> 416 \<and> ((code \<noteq> 206 \<and> code \<noteq> 200) \<or> body = None))"

text \<open>
  One run of \<^verbatim>\<open>tailLogFile\<close>. \<open>hidden\<close> is \<^verbatim>\<open>document.hidden\<close>. The request asks
  for the bytes from \<^verbatim>\<open>totalBytes\<close> on; the decoder is a new one for every poll.
\<close>

definition tailLogFile ::
  "'d TextDecoder \<Rightarrow> source_type \<Rightarrow> bool \<Rightarrow> poll_result \<Rightarrow> 'd viewer \<Rightarrow> 'd viewer" where
  "tailLogFile dec src hidden resp st =
     (if src \<noteq> Remote \<or> hidden then st
      else
        (let st1 = (if \<not> isLivePaused st then st\<lparr>status := ''Live''\<rparr> else st)
         in case resp of
              FetchError \<Rightarrow> catch_tail st1
            | Response code body \<Rightarrow>
                if code = 416 then st1
                else if code \<noteq> 206 \<and> code \<noteq> 200 then catch_tail st1
                else (case body of
                        None \<Rightarrow> catch_tail st1
                      | Some newContent \<Rightarrow>
                          if length newContent > 0 then
                            (let chunk = decode dec newContent;
                                 newLines = filter (\<lambda>l. trim l \<noteq> []) (splitStr NL chunk);
                                 st2 = (if length newLines > 0
                                        then st1\<lparr>logLines := logLines st1 @ newLines\<rparr>
                                        else st1)
                             in st2\<lparr>totalBytes := totalBytes st2 + length newContent\<rparr>)
                          else st1)))"

text \<open>
  The effect that arms the polling timer:
  \<^verbatim>\<open>if (isLive && source.type === 'remote') {
    if (status === 'Stream finished.' || status.startsWith('Live')) { setInterval(...) } }\<close>
\<close>

definition tailingScheduled :: "source_type \<Rightarrow> 'd viewer \<Rightarrow> bool" where
  "tailingScheduled src st =
     (isLive st \<and> src = Remote \<and>
      (status st = ''Stream finished.'' \<or> prefix ''Live'' (status st)))"

text \<open>
  The render shows the error panel in place of the log when \<^verbatim>\<open>error\<close> is truthy.
\<close>

definition errorViewShown :: "'d viewer \<Rightarrow> bool" where
  "errorViewShown st = (case error st of None \<Rightarrow> False | Some msg \<Rightarrow> msg \<noteq> [])"

section \<open>filteredLines\<close>

record item =
  line :: jsstring
  originalIndex :: nat




section \<open>Virtualization\<close>

text \<open>
  \<^verbatim>\<open>scrollTop\<close> and \<^verbatim>\<open>clientHeight\<close> are JavaScript numbers; the model computes
  with exact reals. \<open>height\<close> below is \<^verbatim>\<open>logContainerRef.current?.clientHeight || 0\<close>,
  which is 0 while the container is not mounted.
\<close>

definition startIndex :: "real \<Rightarrow> int" where
  "startIndex scrollTop = max 0 (\<lfloor>scrollTop / ROW_HEIGHT\<rfloor> - 10)"

definition endIndex :: "nat \<Rightarrow> real \<Rightarrow> real \<Rightarrow> int" where
  "endIndex filteredLength scrollTop height =
     min (int filteredLength) (\<lceil>(scrollTop + height) / ROW_HEIGHT\<rceil> + 10)"

definition visibleLines :: "item list \<Rightarrow> real \<Rightarrow> real \<Rightarrow> item list" where
  "visibleLines filtered scrollTop height =
     slice filtered (startIndex scrollTop) (endIndex (length filtered) scrollTop height)"

section \<open>The specification's formulations\<close>

text \<open>
  The Viewport Projector as the specification writes it:
  \<open>startIndex = max(0, floor(scrollOffset / rowHeight) - margin)\<close>,
  \<open>endIndex = min(totalRows, ceil((scrollOffset + containerHeight) / rowHeight) + margin)\<close>.
\<close>

definition project :: "real \<Rightarrow> real \<Rightarrow> real \<Rightarrow> nat \<Rightarrow> int \<Rightarrow> int \<times> int" where
  "project scrollOffset height rowHeight totalRows margin =
     (max 0 (\<lfloor>scrollOffset / rowHeight\<rfloor> - margin),
      min (int totalRows) (\<lceil>(scrollOffset + height) / rowHeight\<rceil> + margin))"

text \<open>
  Rejoining with the terminators reinserted: every completed line is followed by
  the terminator, the pending fragment is not.
\<close>

definition rejoin :: "jsstring list \<Rightarrow> jsstring \<Rightarrow> jsstring" where
  "rejoin completed fragment = concat (map (\<lambda>l. l @ [NL]) completed) @ fragment"

text \<open>
  The lines joined by the terminator, as \<^verbatim>\<open>lines.join('\n')\<close> does: a terminator
  between two lines, none after the last.
\<close>

fun joinLines :: "jsstring list \<Rightarrow> jsstring" where
  "joinLines [] = []"
| "joinLines [l] = l"
| "joinLines (l # k # ls) = l @ NL # joinLines (k # ls)"


text \<open>The most recent \<open>n\<close> elements of a list.\<close>

definition mostRecent :: "nat \<Rightarrow> 'a list \<Rightarrow> 'a list" where
  "mostRecent n xs = drop (length xs - n) xs"

section \<open>Splitting, decoding and the cap\<close>

lemma splitStr_nonempty: "splitStr sep s \<noteq> []"
  by (induction s) (auto split: list.splits)

lemma splitStr_Cons_other:
  "c \<noteq> sep \<Longrightarrow> splitStr sep (c # cs) = (c # hd (splitStr sep cs)) # tl (splitStr sep cs)"
  using splitStr_nonempty [of sep cs] by (cases "splitStr sep cs") auto

lemma rejoin_splitStr:
  "rejoin (butlast (splitStr NL s)) (last (splitStr NL s)) = s"
proof (induction s)
  case Nil
  show ?case by (simp add: rejoin_def)
next
  case (Cons c cs)
  obtain l ls where sp: "splitStr NL cs = l # ls"
    using splitStr_nonempty [of NL cs] by (cases "splitStr NL cs") auto
  show ?case
  proof (cases "c = NL")
    case True
    with Cons sp show ?thesis by (simp add: rejoin_def)
  next
    case False
    with Cons sp show ?thesis by (cases ls) (auto simp: rejoin_def)
  qed
qed

lemma splitStr_no_sep: "l \<in> set (splitStr sep s) \<Longrightarrow> sep \<notin> set l"
proof (induction s arbitrary: l)
  case Nil
  then show ?case by simp
next
  case (Cons c cs)
  obtain l0 ls where sp: "splitStr sep cs = l0 # ls"
    using splitStr_nonempty [of sep cs] by (cases "splitStr sep cs") auto
  from Cons sp show ?case by (auto split: if_splits)
qed

lemma splitStr_no_sep_id: "sep \<notin> set l \<Longrightarrow> splitStr sep l = [l]"
  by (induction l) auto

lemma splitStr_append_sep:
  "sep \<notin> set l \<Longrightarrow> splitStr sep (l @ sep # s) = l # splitStr sep s"
  by (induction l) auto

text \<open>
  Splitting a text that arrives in two parts: the segments completed by the
  first part, then the split of its last segment followed by the second part.
\<close>

lemma splitStr_append:
  "splitStr sep (a @ b) = butlast (splitStr sep a) @ splitStr sep (last (splitStr sep a) @ b)"
proof (induction a)
  case Nil
  show ?case by simp
next
  case (Cons c cs)
  obtain l ls where sp: "splitStr sep cs = l # ls"
    using splitStr_nonempty [of sep cs] by (cases "splitStr sep cs") auto
  show ?case
  proof (cases "c = sep")
    case True
    with Cons sp show ?thesis by simp
  next
    case False
    show ?thesis
    proof (cases ls)
      case Nil
      with Cons sp False show ?thesis by (simp add: splitStr_Cons_other)
    next
      case (Cons l' ls')
      with Cons.IH sp False show ?thesis
        by (simp add: splitStr_Cons_other)
    qed
  qed
qed

lemma decode_stream_append:
  "decode_stream dec d (a @ b) =
     (fst (decode_stream dec d a) @ fst (decode_stream dec (snd (decode_stream dec d a)) b),
      snd (decode_stream dec (snd (decode_stream dec d a)) b))"
  by (induction a arbitrary: d) (auto simp: Let_def split: prod.splits)

section \<open>The read loops\<close>

lemma consume_fst:
  "fst (consume dec v st) =
     butlast (splitStr NL (buffer st @ fst (decode_stream dec (decoder st) v)))"
  by (simp add: consume_def Let_def split: prod.splits)

lemma consume_snd:
  "snd (consume dec v st) =
     st\<lparr>totalBytes := totalBytes st + length v,
        buffer := last (splitStr NL (buffer st @ fst (decode_stream dec (decoder st) v))),
        decoder := snd (decode_stream dec (decoder st) v)\<rparr>"
  by (simp add: consume_def Let_def splitStr_nonempty split: prod.splits)

lemma streamLoop_Chunk:
  "streamLoop dec st (Chunk v # rs) =
     streamLoop dec ((snd (consume dec v st))
        \<lparr>logLines := logLines st @ fst (consume dec v st)\<rparr>) rs"
  by (simp add: Let_def split_beta consume_snd)

lemma streamLoop0_Chunk:
  "streamLoop0 dec st (Chunk v # rs) =
     streamLoop0 dec
       (if fst (consume dec v st) = [] then snd (consume dec v st)
        else (snd (consume dec v st))
               \<lparr>allLines := trimLines (allLines st @ fst (consume dec v st))\<rparr>) rs"
  by (simp add: Let_def split_beta consume_snd)

lemma pushed_Chunk:
  "pushed dec st (Chunk v # rs) = fst (consume dec v st) @ pushed dec (snd (consume dec v st)) rs"
  by (simp add: split_beta)

lemma pushed_cong:
  "buffer st = buffer st' \<Longrightarrow> decoder st = decoder st' \<Longrightarrow> pushed dec st rs = pushed dec st' rs"
proof (induction rs arbitrary: st st')
  case Nil
  show ?case by simp
next
  case (Cons r rs)
  show ?case
  proof (cases r)
    case (Chunk v)
    have "pushed dec (snd (consume dec v st)) rs = pushed dec (snd (consume dec v st')) rs"
      by (rule Cons.IH) (simp_all add: consume_snd Cons.prems)
    then show ?thesis
      by (simp only: Chunk pushed_Chunk consume_fst Cons.prems)
  qed (simp_all add: Cons.prems)
qed

text \<open>The tailing viewer stores exactly the lines the loop hands on.\<close>

lemma streamLoop_logLines:
  "logLines (streamLoop dec st rs) = logLines st @ pushed dec st rs"
proof (induction rs arbitrary: st)
  case Nil
  show ?case by simp
next
  case (Cons r rs)
  show ?case
  proof (cases r)
    case (Chunk v)
    have "pushed dec ((snd (consume dec v st))\<lparr>logLines := logLines st @ fst (consume dec v st)\<rparr>) rs
          = pushed dec (snd (consume dec v st)) rs"
      by (rule pushed_cong) simp_all
    then show ?thesis
      by (simp only: Chunk streamLoop_Chunk pushed_Chunk Cons.IH) simp
  qed (simp_all add: catch_stream_def Let_def)
qed

lemma mostRecent_mostRecent_append:
  "mostRecent n (mostRecent n xs @ ys) = mostRecent n (xs @ ys)"
proof (cases "length xs \<le> n")
  case True
  then show ?thesis by (simp add: mostRecent_def)
next
  case False
  then have "length xs + length ys - (length xs - n + n) + (length xs - n)
             = length xs + length ys - n"
    by arith
  with False show ?thesis by (simp add: mostRecent_def)
qed

lemma mostRecent_idem: "mostRecent n (mostRecent n xs) = mostRecent n xs"
  using mostRecent_mostRecent_append [of n xs "[]"] by simp

lemma length_mostRecent: "length (mostRecent n xs) = min (length xs) n"
  by (simp add: mostRecent_def)

lemma mostRecent_id: "length xs \<le> n \<Longrightarrow> mostRecent n xs = xs"
  by (simp add: mostRecent_def)

lemma trimLines_mostRecent: "trimLines ls = mostRecent MAX_DISPLAY_LINES ls"
proof -
  have "nat (int (length ls) - int MAX_DISPLAY_LINES) = length ls - MAX_DISPLAY_LINES"
    by arith
  then show ?thesis
    by (simp add: trimLines_def mostRecent_def slice_def relIndex_def Let_def)
qed

lemma last_splitStr_no_sep: "sep \<notin> set (last (splitStr sep s))"
  using splitStr_no_sep [of "last (splitStr sep s)" sep s] splitStr_nonempty [of sep s]
  by simp

lemma butlast_splitStr_append:
  "butlast (splitStr sep (a @ b)) =
     butlast (splitStr sep a) @ butlast (splitStr sep (last (splitStr sep a) @ b))"
  by (subst splitStr_append) (simp add: butlast_append splitStr_nonempty)

lemma last_splitStr_append:
  "last (splitStr sep (a @ b)) = last (splitStr sep (last (splitStr sep a) @ b))"
  by (subst splitStr_append) (simp add: splitStr_nonempty)

lemma consume_append_fst:
  "fst (consume dec (a @ b) st) =
     fst (consume dec a st) @ fst (consume dec b (snd (consume dec a st)))"
  by (simp add: consume_fst consume_snd decode_stream_append
        butlast_splitStr_append [of NL "buffer st @ t" for t, simplified])

lemma consume_append_snd:
  "snd (consume dec (a @ b) st) = snd (consume dec b (snd (consume dec a st)))"
  by (simp add: consume_snd decode_stream_append
        last_splitStr_append [of NL "buffer st @ t" for t, simplified])

lemma consume_Nil:
  "NL \<notin> set (buffer st) \<Longrightarrow> consume dec [] st = ([], st)"
  by (simp add: consume_def splitStr_no_sep_id)

lemma consume_buffer_no_NL: "NL \<notin> set (buffer (snd (consume dec v st)))"
  by (simp add: consume_snd last_splitStr_no_sep)

lemma consume_upd_logLines:
  "consume dec v (st\<lparr>logLines := x\<rparr>) =
     (fst (consume dec v st), (snd (consume dec v st))\<lparr>logLines := x\<rparr>)"
  by (simp add: consume_def Let_def split_beta)

lemma consume_upd_allLines:
  "consume dec v (st\<lparr>allLines := x\<rparr>) =
     (fst (consume dec v st), (snd (consume dec v st))\<lparr>allLines := x\<rparr>)"
  by (simp add: consume_def Let_def split_beta)

lemma streamLoop_two_chunks:
  "streamLoop dec st (Chunk a # Chunk b # rs) = streamLoop dec st (Chunk (a @ b) # rs)"
  by (simp only: streamLoop_Chunk consume_append_fst consume_append_snd consume_upd_logLines
        fst_conv snd_conv) (simp add: consume_snd)

lemma streamLoop0_two_chunks:
  "streamLoop0 dec st (Chunk a # Chunk b # rs) = streamLoop0 dec st (Chunk (a @ b) # rs)"
proof -
  have 1: "allLines (snd (consume dec v s)) = allLines s" for v and s :: "'a viewer"
    by (simp add: consume_snd)
  show ?thesis
    by (simp only: streamLoop0_Chunk consume_append_fst consume_append_snd)
       (simp add: consume_upd_allLines 1 trimLines_mostRecent mostRecent_mostRecent_append)
qed

lemma streamLoop_fuse:
  "NL \<notin> set (buffer st) \<Longrightarrow>
   streamLoop dec st (map Chunk cs @ rs) = streamLoop dec st (Chunk (concat cs) # rs)"
proof (induction cs arbitrary: st)
  case Nil
  then show ?case by (simp add: consume_Nil)
next
  case (Cons c cs)
  let ?st2 = "(snd (consume dec c st))\<lparr>logLines := logLines st @ fst (consume dec c st)\<rparr>"
  have "NL \<notin> set (buffer ?st2)"
    by (simp add: consume_buffer_no_NL)
  then have "streamLoop dec ?st2 (map Chunk cs @ rs) = streamLoop dec ?st2 (Chunk (concat cs) # rs)"
    by (rule Cons.IH)
  then have "streamLoop dec st (Chunk c # map Chunk cs @ rs)
             = streamLoop dec st (Chunk c # Chunk (concat cs) # rs)"
    by (simp only: streamLoop_Chunk)
  then show ?case
    by (simp add: streamLoop_two_chunks del: streamLoop.simps)
qed

lemma streamLoop0_fuse:
  "NL \<notin> set (buffer st) \<Longrightarrow>
   streamLoop0 dec st (map Chunk cs @ rs) = streamLoop0 dec st (Chunk (concat cs) # rs)"
proof (induction cs arbitrary: st)
  case Nil
  then show ?case by (simp add: consume_Nil)
next
  case (Cons c cs)
  let ?st2 = "if fst (consume dec c st) = [] then snd (consume dec c st)
        else (snd (consume dec c st))
               \<lparr>allLines := trimLines (allLines st @ fst (consume dec c st))\<rparr>"
  have "NL \<notin> set (buffer ?st2)"
    by (simp add: consume_buffer_no_NL)
  then have "streamLoop0 dec ?st2 (map Chunk cs @ rs) = streamLoop0 dec ?st2 (Chunk (concat cs) # rs)"
    by (rule Cons.IH)
  then have "streamLoop0 dec st (Chunk c # map Chunk cs @ rs)
             = streamLoop0 dec st (Chunk c # Chunk (concat cs) # rs)"
    by (simp only: streamLoop0_Chunk)
  then show ?case
    by (simp add: streamLoop0_two_chunks del: streamLoop0.simps)
qed

lemma streamLoop0_allLines:
  "length (allLines st) \<le> MAX_DISPLAY_LINES \<Longrightarrow>
   allLines (streamLoop0 dec st rs) = mostRecent MAX_DISPLAY_LINES (allLines st @ pushed dec st rs)"
proof (induction rs arbitrary: st)
  case Nil
  then show ?case by (simp add: mostRecent_id)
next
  case (Cons r rs)
  show ?case
  proof (cases r)
    case (Chunk v)
    let ?l = "fst (consume dec v st)"
    let ?st1 = "snd (consume dec v st)"
    let ?st2 = "if ?l = [] then ?st1 else ?st1\<lparr>allLines := trimLines (allLines st @ ?l)\<rparr>"
    have a2: "allLines ?st2 = mostRecent MAX_DISPLAY_LINES (allLines st @ ?l)"
      using Cons.prems by (simp add: consume_snd trimLines_mostRecent mostRecent_id)
    then have "length (allLines ?st2) \<le> MAX_DISPLAY_LINES"
      by (simp add: length_mostRecent)
    then have "allLines (streamLoop0 dec ?st2 rs)
               = mostRecent MAX_DISPLAY_LINES (allLines ?st2 @ pushed dec ?st2 rs)"
      by (rule Cons.IH)
    moreover have "pushed dec ?st2 rs = pushed dec ?st1 rs"
      by (rule pushed_cong) simp_all
    ultimately show ?thesis
      by (simp only: Chunk streamLoop0_Chunk pushed_Chunk a2 mostRecent_mostRecent_append append_assoc)
  next
    case Done
    then show ?thesis by (simp add: Let_def trimLines_mostRecent)
  next
    case AbortError
    with Cons.prems show ?thesis by (simp add: catch_stream0_def mostRecent_id)
  next
    case (ReadError m)
    with Cons.prems show ?thesis by (simp add: catch_stream0_def mostRecent_id)
  qed
qed

section \<open>Chunk-boundary invariance\<close>

lemma streamLogFile_Opened:
  "streamLogFile dec src Opened rs st0 = streamLoop dec (streamLogFile dec src Opened [] st0) rs"
  by (simp add: streamLogFile_def)

lemma streamLogFile0_Opened:
  "streamLogFile0 dec Opened rs st0 = streamLoop0 dec (streamLogFile0 dec Opened [] st0) rs"
  by (simp add: streamLogFile0_def)

lemma streamLogFile_start:
  "buffer (streamLogFile dec src Opened [] st0) = []"
  "decoder (streamLogFile dec src Opened [] st0) = dinit dec"
  "logLines (streamLogFile dec src Opened [] st0) = []"
  "totalBytes (streamLogFile dec src Opened [] st0) = 0"
  "error (streamLogFile dec src Opened [] st0) = None"
  "isLive (streamLogFile dec src Opened [] st0) = False"
  by (simp_all add: streamLogFile_def)

lemma streamLogFile0_start:
  "buffer (streamLogFile0 dec Opened [] st0) = []"
  "decoder (streamLogFile0 dec Opened [] st0) = dinit dec"
  "logLines (streamLogFile0 dec Opened [] st0) = []"
  "allLines (streamLogFile0 dec Opened [] st0) = []"
  "totalBytes (streamLogFile0 dec Opened [] st0) = 0"
  "error (streamLogFile0 dec Opened [] st0) = None"
  by (simp_all add: streamLogFile0_def)

lemma streamLogFile_fuse:
  "streamLogFile dec src Opened (map Chunk cs @ rs) st0 =
   streamLogFile dec src Opened (Chunk (concat cs) # rs) st0"
  by (subst (1 2) streamLogFile_Opened) (rule streamLoop_fuse, simp add: streamLogFile_start)

lemma streamLogFile0_fuse:
  "streamLogFile0 dec Opened (map Chunk cs @ rs) st0 =
   streamLogFile0 dec Opened (Chunk (concat cs) # rs) st0"
  by (subst (1 2) streamLogFile0_Opened) (rule streamLoop0_fuse, simp add: streamLogFile0_start)

lemma streamLoop_one_chunk:
  "streamLoop dec st [Chunk v] =
     (snd (consume dec v st))\<lparr>logLines := logLines st @ fst (consume dec v st)\<rparr>"
  by (simp add: streamLoop_Chunk del: streamLoop.simps(3))

lemma streamLogFile_chunks_eq:
  "streamLogFile dec src Opened (map Chunk cs) st0 =
     streamLoop dec (streamLogFile dec src Opened [] st0) [Chunk (concat cs)]"
proof -
  have "streamLogFile dec src Opened (map Chunk cs) st0 =
        streamLogFile dec src Opened [Chunk (concat cs)] st0"
    using streamLogFile_fuse [of dec src cs "[]" st0] by simp
  also have "\<dots> = streamLoop dec (streamLogFile dec src Opened [] st0) [Chunk (concat cs)]"
    by (rule streamLogFile_Opened)
  finally show ?thesis .
qed

lemma streamLogFile_chunks:
  "logLines (streamLogFile dec src Opened (map Chunk cs) st0) =
     butlast (splitStr NL (fst (decode_stream dec (dinit dec) (concat cs))))"
  "buffer (streamLogFile dec src Opened (map Chunk cs) st0) =
     last (splitStr NL (fst (decode_stream dec (dinit dec) (concat cs))))"
  "totalBytes (streamLogFile dec src Opened (map Chunk cs) st0) = length (concat cs)"
  "decoder (streamLogFile dec src Opened (map Chunk cs) st0) =
     snd (decode_stream dec (dinit dec) (concat cs))"
  "error (streamLogFile dec src Opened (map Chunk cs) st0) = None"
  "isLive (streamLogFile dec src Opened (map Chunk cs) st0) = False"
  by (simp_all only: streamLogFile_chunks_eq streamLoop_one_chunk)
     (simp_all add: consume_fst consume_snd streamLogFile_start)

lemma streamLogFile_append:
  "streamLogFile dec src Opened (map Chunk cs @ rs) st0 =
     streamLoop dec (streamLogFile dec src Opened (map Chunk cs) st0) rs"
proof -
  have "streamLogFile dec src Opened (Chunk (concat cs) # rs) st0 =
        streamLoop dec (streamLoop dec (streamLogFile dec src Opened [] st0) [Chunk (concat cs)]) rs"
    by (subst streamLogFile_Opened) (simp add: streamLoop_Chunk del: streamLoop.simps(3))
  then show ?thesis
    by (simp only: streamLogFile_fuse streamLogFile_chunks_eq)
qed

text \<open>
  Joining the stored lines by the terminator gives the text without one
  trailing terminator.
\<close>

lemma concat_terminated:
  "ls \<noteq> [] \<Longrightarrow> concat (map (\<lambda>l. l @ [NL]) ls) = joinLines ls @ [NL]"
  by (induction ls rule: joinLines.induct) simp_all

lemma joinLines_snoc: "ls \<noteq> [] \<Longrightarrow> joinLines (ls @ [l]) = joinLines ls @ NL # l"
  by (induction ls rule: joinLines.induct) simp_all

lemma joinLines_stored:
  "joinLines (if last (splitStr NL t) = [] then butlast (splitStr NL t) else splitStr NL t)
     = (if t \<noteq> [] \<and> last t = NL then butlast t else t)"
proof -
  let ?c = "butlast (splitStr NL t)"
  let ?f = "last (splitStr NL t)"
  have parts: "splitStr NL t = ?c @ [?f]"
    by (simp add: splitStr_nonempty)
  have t: "t = rejoin ?c ?f"
    by (simp add: rejoin_splitStr)
  have nf: "NL \<notin> set ?f"
    by (rule last_splitStr_no_sep)
  show ?thesis
  proof (cases "?f = []")
    case True
    show ?thesis
    proof (cases "?c = []")
      case True
      with \<open>?f = []\<close> t have "t = []"
        by (simp add: rejoin_def)
      with True \<open>?f = []\<close> show ?thesis
        by simp
    next
      case False
      with \<open>?f = []\<close> t have "t = joinLines ?c @ [NL]"
        by (simp add: rejoin_def concat_terminated)
      then have "t \<noteq> [] \<and> last t = NL \<and> butlast t = joinLines ?c"
        by (metis butlast_snoc last_snoc snoc_eq_iff_butlast)
      with \<open>?f = []\<close> show ?thesis
        by simp
    qed
  next
    case False
    have j: "joinLines (?c @ [?f]) = rejoin ?c ?f"
      by (cases "?c = []") (simp_all add: rejoin_def joinLines_snoc concat_terminated)
    from False nf have "last ?f \<noteq> NL"
      using last_in_set by metis
    with False t have "t \<noteq> []" "last t \<noteq> NL"
      by (metis append_is_Nil_conv rejoin_def, metis last_appendR rejoin_def)
    with False j t parts show ?thesis
      by (simp del: splitStr.simps)
  qed
qed

text \<open>
  Claim C1, as amended. For every sequence of chunks \<open>cs\<close>, the lines in the store
  after the stream has ended are the same as when the bytes \<open>concat cs\<close> arrive as
  one chunk, in the tailing viewer and in \<^verbatim>\<open>src/components/LogViewer.tsx\<close>, whose
  store holds the most recent \<^verbatim>\<open>MAX_DISPLAY_LINES\<close> of them. What the lines
  reproduce is the text the streaming decoder has yielded for the bytes: before
  the end, the lines stored so far, each followed by the terminator, and then
  the pending \<^verbatim>\<open>buffer\<close> are exactly that text; the end of the stream adds the
  pending fragment as a last line when it is not empty; after the end no stored
  line contains a terminator, and the stored lines joined by the terminator are
  that text with one trailing terminator, if it has one, removed.
\<close>

theorem chunk_boundary_invariance:
  "(let fin = streamLogFile dec src Opened (map Chunk cs @ [Done]) st0;
        mid = streamLogFile dec src Opened (map Chunk cs) st0;
        fin0 = streamLogFile0 dec Opened (map Chunk cs @ [Done]) st0;
        decoded = fst (decode_stream dec (dinit dec) (concat cs))
    in logLines fin = logLines (streamLogFile dec src Opened [Chunk (concat cs), Done] st0)
     \<and> logLines fin0 = logLines (streamLogFile0 dec Opened [Chunk (concat cs), Done] st0)
     \<and> rejoin (logLines mid) (buffer mid) = decoded
     \<and> logLines fin = logLines mid @ (if buffer mid = [] then [] else [buffer mid])
     \<and> (\<forall>l \<in> set (logLines fin). NL \<notin> set l)
     \<and> joinLines (logLines fin)
         = (if decoded \<noteq> [] \<and> last decoded = NL then butlast decoded else decoded)
     \<and> logLines fin0 = mostRecent MAX_DISPLAY_LINES (logLines fin))"
proof -
  let ?T = "fst (decode_stream dec (dinit dec) (concat cs))"
  let ?mid = "streamLogFile dec src Opened (map Chunk cs) st0"
  let ?fin = "streamLogFile dec src Opened (map Chunk cs @ [Done]) st0"
  have 1: "?fin = streamLogFile dec src Opened [Chunk (concat cs), Done] st0"
    by (rule streamLogFile_fuse)
  have 2: "streamLogFile0 dec Opened (map Chunk cs @ [Done]) st0
           = streamLogFile0 dec Opened [Chunk (concat cs), Done] st0"
    by (rule streamLogFile0_fuse)
  have 3: "rejoin (logLines ?mid) (buffer ?mid) = ?T"
    by (simp add: streamLogFile_chunks rejoin_splitStr)
  have 4: "logLines ?fin = logLines ?mid @ (if buffer ?mid = [] then [] else [buffer ?mid])"
    by (simp only: streamLogFile_append) (simp add: Let_def)
  have 5: "logLines (streamLogFile0 dec Opened [Chunk (concat cs), Done] st0)
           = mostRecent MAX_DISPLAY_LINES
               (logLines (streamLogFile dec src Opened [Chunk (concat cs), Done] st0))"
    apply (subst streamLogFile0_Opened)
    apply (subst streamLogFile_Opened)
    apply (simp add: streamLoop0_Chunk streamLoop_Chunk streamLogFile0_start streamLogFile_start
          consume_fst consume_snd trimLines_mostRecent mostRecent_mostRecent_append
          mostRecent_idem Let_def
          del: streamLoop.simps(3) streamLoop0.simps(3))
    done
  have stored: "logLines ?fin
                = (if last (splitStr NL ?T) = [] then butlast (splitStr NL ?T) else splitStr NL ?T)"
    by (simp only: 4 streamLogFile_chunks) (simp add: splitStr_nonempty)
  have 6: "\<forall>l \<in> set (logLines ?fin). NL \<notin> set l"
  proof
    fix l
    assume "l \<in> set (logLines ?fin)"
    then have "l \<in> set (splitStr NL ?T)"
      by (simp only: stored split: if_splits) (auto dest: in_set_butlastD)
    then show "NL \<notin> set l"
      by (rule splitStr_no_sep)
  qed
  have 7: "joinLines (logLines ?fin)
           = (if ?T \<noteq> [] \<and> last ?T = NL then butlast ?T else ?T)"
    by (simp only: stored joinLines_stored)
  show ?thesis
    unfolding Let_def using 1 2 3 4 5 6 7 by simp
qed

lemmas utf8_eval = utf8_def utf8_init_def utf8_step_def utf8_lead_def utf8_emit_def
  utf8_reset_def utf8_flush_def bytes_def jstr_def NL_def Let_def

text \<open>
  The specification's scenario: the chunks \<^verbatim>\<open>"2024-01-01 ERR foo\n2024"\<close> and
  \<^verbatim>\<open>"-01-01 OK bar\n"\<close> give the lines \<^verbatim>\<open>"2024-01-01 ERR foo"\<close> and
  \<^verbatim>\<open>"2024-01-01 OK bar"\<close>.
\<close>

theorem chunk_boundary_invariance_witness:
  "logLines (streamLogFile utf8 Remote Opened
      (map Chunk [bytes ''2024-01-01 ERR foo'' @ [0x0A] @ bytes ''2024'',
                  bytes ''-01-01 OK bar'' @ [0x0A]] @ [Done])
      (initialState utf8))
   = [jstr ''2024-01-01 ERR foo'', jstr ''2024-01-01 OK bar'']"
proof -
  let ?cs = "[bytes ''2024-01-01 ERR foo'' @ [0x0A] @ bytes ''2024'',
              bytes ''-01-01 OK bar'' @ [0x0A]]"
  have "logLines (streamLogFile utf8 Remote Opened (map Chunk ?cs @ [Done]) (initialState utf8))
        = logLines (streamLogFile utf8 Remote Opened [Chunk (concat ?cs), Done] (initialState utf8))"
    using chunk_boundary_invariance [of utf8 Remote ?cs "initialState utf8", unfolded Let_def]
    by (rule conjunct1)
  also have "\<dots> = [jstr ''2024-01-01 ERR foo'', jstr ''2024-01-01 OK bar'']"
    by (simp add: streamLogFile_def initialState_def consume_def utf8_eval)
  finally show ?thesis .
qed

text \<open>
  The streams \<^verbatim>\<open>"a\nb"\<close> and \<^verbatim>\<open>"a\nb\n"\<close> leave the same two lines, and so do the
  streams \<^verbatim>\<open>61 C3\<close>, which ends inside a two-byte sequence, and \<^verbatim>\<open>61\<close>: the lines
  do not determine the bytes.
\<close>

theorem stream_not_recoverable_counterexample:
  "logLines (streamLogFile utf8 Remote Opened
      [Chunk (bytes ''a'' @ [0x0A] @ bytes ''b''), Done] (initialState utf8))
     = [jstr ''a'', jstr ''b'']
   \<and> logLines (streamLogFile utf8 Remote Opened
      [Chunk (bytes ''a'' @ [0x0A] @ bytes ''b'' @ [0x0A]), Done] (initialState utf8))
     = [jstr ''a'', jstr ''b'']
   \<and> bytes ''a'' @ [0x0A] @ bytes ''b'' \<noteq> bytes ''a'' @ [0x0A] @ bytes ''b'' @ [0x0A]
   \<and> logLines (streamLogFile utf8 Remote Opened [Chunk [0x61, 0xC3], Done] (initialState utf8))
     = [jstr ''a'']
   \<and> logLines (streamLogFile utf8 Remote Opened [Chunk [0x61], Done] (initialState utf8))
     = [jstr ''a'']"
  by (simp add: streamLogFile_def initialState_def consume_def utf8_eval)

text \<open>
  On bytes below 0x80 the UTF-8 decoder is the identity, so for such a stream
  the rejoined lines and the pending fragment are the bytes themselves.
\<close>

lemma utf8_ascii:
  "bytes_needed d = 0 \<Longrightarrow> \<forall>b \<in> set bs. b < 0x80 \<Longrightarrow>
   fst (decode_stream utf8 d bs) = map ucast bs"
proof (induction bs arbitrary: d)
  case Nil
  show ?case by simp
next
  case (Cons b bs)
  from Cons.prems have "b < 0x80"
    by simp
  then have u: "unat b \<le> 0x7F"
    by (simp add: word_less_nat_alt)
  then have "unat b \<noteq> 0xFEFF" "unat b < 0x10000"
    by simp_all
  with u Cons.prems have s: "dstep utf8 d b = ([ucast b], d\<lparr>bom_seen := True\<rparr>)"
    by (simp add: utf8_def utf8_step_def utf8_lead_def utf8_emit_def)
  have "fst (decode_stream utf8 (d\<lparr>bom_seen := True\<rparr>) bs) = map ucast bs"
    using Cons.prems by (intro Cons.IH) simp_all
  with s show ?case
    by (simp add: split_beta)
qed

lemma ascii_stream_reproduced:
  "\<forall>b \<in> set (concat cs). b < 0x80 \<Longrightarrow>
   rejoin (logLines (streamLogFile utf8 src Opened (map Chunk cs) st0))
          (buffer (streamLogFile utf8 src Opened (map Chunk cs) st0))
     = map ucast (concat cs)"
proof -
  assume a: "\<forall>b \<in> set (concat cs). b < 0x80"
  have "bytes_needed (dinit utf8) = 0"
    by (simp add: utf8_def utf8_init_def)
  then have "fst (decode_stream utf8 (dinit utf8) (concat cs)) = map ucast (concat cs)"
    using a by (rule utf8_ascii)
  then show ?thesis
    by (simp add: streamLogFile_chunks rejoin_splitStr)
qed

section \<open>Bytes consumed and cancellation\<close>

lemma streamLoop0_one_chunk:
  "streamLoop0 dec st [Chunk v] =
     (if fst (consume dec v st) = [] then snd (consume dec v st)
      else (snd (consume dec v st))
             \<lparr>allLines := trimLines (allLines st @ fst (consume dec v st))\<rparr>)"
  by (simp add: streamLoop0_Chunk del: streamLoop0.simps(3))

lemma streamLogFile0_chunks_eq:
  "streamLogFile0 dec Opened (map Chunk cs) st0 =
     streamLoop0 dec (streamLogFile0 dec Opened [] st0) [Chunk (concat cs)]"
proof -
  have "streamLogFile0 dec Opened (map Chunk cs) st0 =
        streamLogFile0 dec Opened [Chunk (concat cs)] st0"
    using streamLogFile0_fuse [of dec cs "[]" st0] by simp
  also have "\<dots> = streamLoop0 dec (streamLogFile0 dec Opened [] st0) [Chunk (concat cs)]"
    by (rule streamLogFile0_Opened)
  finally show ?thesis .
qed

lemma streamLogFile0_chunks:
  "logLines (streamLogFile0 dec Opened (map Chunk cs) st0) = []"
  "buffer (streamLogFile0 dec Opened (map Chunk cs) st0) =
     last (splitStr NL (fst (decode_stream dec (dinit dec) (concat cs))))"
  "totalBytes (streamLogFile0 dec Opened (map Chunk cs) st0) = length (concat cs)"
  "error (streamLogFile0 dec Opened (map Chunk cs) st0) = None"
  by (simp_all only: streamLogFile0_chunks_eq streamLoop0_one_chunk)
     (simp_all add: consume_fst consume_snd streamLogFile0_start)

lemma streamLogFile0_append:
  "streamLogFile0 dec Opened (map Chunk cs @ rs) st0 =
     streamLoop0 dec (streamLogFile0 dec Opened (map Chunk cs) st0) rs"
proof -
  have "streamLogFile0 dec Opened (Chunk (concat cs) # rs) st0 =
        streamLoop0 dec (streamLoop0 dec (streamLogFile0 dec Opened [] st0) [Chunk (concat cs)]) rs"
    by (subst streamLogFile0_Opened) (simp add: streamLoop0_Chunk del: streamLoop0.simps(3))
  then show ?thesis
    by (simp only: streamLogFile0_fuse streamLogFile0_chunks_eq)
qed

text \<open>
  Claim C6. After the chunks \<open>cs\<close>, and after the end of the stream that follows
  them, \<^verbatim>\<open>totalBytes\<close> is the length of the concatenated bytes, whatever the
  chunking, in both viewers. Each chunk adds \<^verbatim>\<open>value.length\<close>, the number of its
  bytes, whatever text the decoder makes of them.
\<close>

theorem totalBytes_counts_raw_bytes:
  "totalBytes (streamLogFile dec src Opened (map Chunk cs @ [Done]) st0) = length (concat cs)
   \<and> totalBytes (streamLogFile0 dec Opened (map Chunk cs @ [Done]) st0) = length (concat cs)
   \<and> totalBytes (streamLogFile dec src Opened (map Chunk cs) st0) = length (concat cs)
   \<and> totalBytes (streamLogFile0 dec Opened (map Chunk cs) st0) = length (concat cs)
   \<and> totalBytes (snd (consume dec val st)) = totalBytes st + length val"
proof -
  have "totalBytes (streamLogFile dec src Opened (map Chunk cs @ [Done]) st0) = length (concat cs)"
    by (simp only: streamLogFile_append) (simp add: Let_def streamLogFile_chunks)
  moreover
  have "totalBytes (streamLogFile0 dec Opened (map Chunk cs @ [Done]) st0) = length (concat cs)"
    by (simp only: streamLogFile0_append) (simp add: Let_def streamLogFile0_chunks)
  ultimately show ?thesis
    by (simp add: streamLogFile_chunks streamLogFile0_chunks consume_snd)
qed

text \<open>
  The three bytes \<^verbatim>\<open>C3 | A9 0A\<close> in two chunks decode to one line of one code unit;
  \<^verbatim>\<open>totalBytes\<close> is 3.
\<close>

theorem totalBytes_counts_raw_bytes_witness:
  "totalBytes (streamLogFile utf8 Remote Opened (map Chunk [[0xC3], [0xA9, 0x0A]] @ [Done])
       (initialState utf8)) = 3
   \<and> logLines (streamLogFile utf8 Remote Opened (map Chunk [[0xC3], [0xA9, 0x0A]] @ [Done])
       (initialState utf8)) = [[0xE9]]"
proof -
  have "totalBytes (streamLogFile utf8 Remote Opened (map Chunk [[0xC3], [0xA9, 0x0A]] @ [Done])
          (initialState utf8)) = length (concat [[0xC3], [0xA9, 0x0A :: byte]])"
    using totalBytes_counts_raw_bytes [of utf8 Remote "[[0xC3], [0xA9, 0x0A]]" "initialState utf8"]
    by (rule conjunct1)
  moreover
  have "logLines (streamLogFile utf8 Remote Opened (map Chunk [[0xC3], [0xA9, 0x0A]] @ [Done])
          (initialState utf8)) = [[0xE9]]"
    by (simp add: streamLogFile_def initialState_def consume_def utf8_eval)
  ultimately show ?thesis by simp
qed

text \<open>
  Claim C4, as amended. The cancel button aborts the fetch, and the pending read
  of the remote stream throws \<^verbatim>\<open>AbortError\<close>. When this happens after the chunks
  \<open>cs\<close>, the tailing viewer ends with the status \<^verbatim>\<open>'Stream cancelled.'\<close>, no
  error, and exactly the lines it had appended to \<^verbatim>\<open>logLines\<close> before the
  cancellation. The viewer of \<^verbatim>\<open>src/components/LogViewer.tsx\<close> ends with the same
  status and with an empty \<^verbatim>\<open>logLines\<close>: it collects lines in the local \<^verbatim>\<open>allLines\<close>
  and publishes them only when the stream is done.
\<close>

theorem cancel_keeps_appended_lines:
  "status (streamLogFile dec src Opened (map Chunk cs @ [AbortError]) st0) = ''Stream cancelled.''
   \<and> logLines (streamLogFile dec src Opened (map Chunk cs @ [AbortError]) st0)
       = logLines (streamLogFile dec src Opened (map Chunk cs) st0)
   \<and> error (streamLogFile dec src Opened (map Chunk cs @ [AbortError]) st0) = None
   \<and> status (streamLogFile0 dec Opened (map Chunk cs @ [AbortError]) st0) = ''Stream cancelled.''
   \<and> logLines (streamLogFile0 dec Opened (map Chunk cs @ [AbortError]) st0) = []"
  by (simp only: streamLogFile_append streamLogFile0_append)
     (simp add: catch_stream_def catch_stream0_def streamLogFile_chunks streamLogFile0_chunks)

text \<open>Cancellation after three lines and a pending fragment, in the tailing viewer.\<close>

theorem cancel_keeps_appended_lines_witness:
  "status (streamLogFile utf8 Remote Opened
      (map Chunk [bytes ''a'' @ [0x0A] @ bytes ''b'', [0x0A] @ bytes ''c'' @ [0x0A] @ bytes ''d'']
       @ [AbortError]) (initialState utf8)) = ''Stream cancelled.''
   \<and> logLines (streamLogFile utf8 Remote Opened
      (map Chunk [bytes ''a'' @ [0x0A] @ bytes ''b'', [0x0A] @ bytes ''c'' @ [0x0A] @ bytes ''d'']
       @ [AbortError]) (initialState utf8)) = [jstr ''a'', jstr ''b'', jstr ''c'']"
proof -
  let ?cs = "[bytes ''a'' @ [0x0A] @ bytes ''b'', [0x0A] @ bytes ''c'' @ [0x0A] @ bytes ''d'']"
  note c = cancel_keeps_appended_lines [of utf8 Remote ?cs "initialState utf8"]
  have "logLines (streamLogFile utf8 Remote Opened (map Chunk ?cs) (initialState utf8))
        = [jstr ''a'', jstr ''b'', jstr ''c'']"
    by (simp add: streamLogFile_def initialState_def consume_def utf8_eval)
  with c show ?thesis by simp
qed

text \<open>
  In \<^verbatim>\<open>src/components/LogViewer.tsx\<close> a cancellation after three lines were pushed
  to \<^verbatim>\<open>allLines\<close> leaves \<^verbatim>\<open>logLines\<close> empty.
\<close>

theorem cancel_discards_lines_counterexample:
  "status (streamLogFile0 utf8 Opened
      [Chunk (bytes ''a'' @ [0x0A] @ bytes ''b'' @ [0x0A] @ bytes ''c'' @ [0x0A]), AbortError]
      (initialState utf8)) = ''Stream cancelled.''
   \<and> allLines (streamLogFile0 utf8 Opened
      [Chunk (bytes ''a'' @ [0x0A] @ bytes ''b'' @ [0x0A] @ bytes ''c'' @ [0x0A]), AbortError]
      (initialState utf8)) = [jstr ''a'', jstr ''b'', jstr ''c'']
   \<and> logLines (streamLogFile0 utf8 Opened
      [Chunk (bytes ''a'' @ [0x0A] @ bytes ''b'' @ [0x0A] @ bytes ''c'' @ [0x0A]), AbortError]
      (initialState utf8)) = []"
  by (simp add: streamLogFile0_def initialState_def consume_def catch_stream0_def trimLines_def
        MAX_DISPLAY_LINES_def utf8_eval)

section \<open>The cap on retained lines\<close>

text \<open>
  Claim C9. In \<^verbatim>\<open>src/components/LogViewer.tsx\<close> the cap is 5000. After any
  sequence of read results, \<^verbatim>\<open>allLines\<close> is the most recent 5000 of the lines
  produced so far: its length is the minimum of their number and 5000, and its
  element \<open>i\<close> is the produced line at position \<open>i\<close> plus the number of
  dropped lines. At the end of the stream \<^verbatim>\<open>logLines\<close> is set to this array.
\<close>

theorem line_store_capped:
  "MAX_DISPLAY_LINES = 5000
   \<and> (let s = streamLogFile0 dec Opened rs st0;
          produced = pushed dec (streamLogFile0 dec Opened [] st0) rs
      in allLines s = mostRecent MAX_DISPLAY_LINES produced
       \<and> length (allLines s) = min (length produced) MAX_DISPLAY_LINES
       \<and> (\<forall>i < length (allLines s).
             allLines s ! i = produced ! (length produced - length (allLines s) + i)))
   \<and> (let fin = streamLogFile0 dec Opened (map Chunk cs @ [Done]) st0
      in logLines fin = allLines fin
       \<and> logLines fin = mostRecent MAX_DISPLAY_LINES
            (pushed dec (streamLogFile0 dec Opened [] st0) (map Chunk cs @ [Done])))"
proof -
  let ?start = "streamLogFile0 dec Opened [] st0"
  have a: "allLines (streamLogFile0 dec Opened rs st0)
           = mostRecent MAX_DISPLAY_LINES (pushed dec ?start rs)" for rs
    using streamLoop0_allLines [of ?start dec rs]
    by (subst streamLogFile0_Opened) (simp add: streamLogFile0_start)
  have n: "\<forall>i < length (mostRecent m xs). mostRecent m xs ! i
           = xs ! (length xs - length (mostRecent m xs) + i)" for m and xs :: "jsstring list"
    by (simp add: mostRecent_def)
  have l: "logLines (streamLogFile0 dec Opened (map Chunk cs @ [Done]) st0)
           = allLines (streamLogFile0 dec Opened (map Chunk cs @ [Done]) st0)"
    by (simp only: streamLogFile0_append) (simp add: Let_def)
  show ?thesis
    unfolding Let_def
    using n [of MAX_DISPLAY_LINES "pushed dec ?start rs"] l
    by (simp only: a length_mostRecent) (simp add: MAX_DISPLAY_LINES_def)
qed

lemma utf8_newlines:
  "bytes_needed d = 0 \<Longrightarrow>
   fst (decode_stream utf8 d (replicate n 0x0A)) = replicate n NL"
proof (induction n arbitrary: d)
  case 0
  show ?case by simp
next
  case (Suc n)
  have s: "dstep utf8 d 0x0A = ([NL], d\<lparr>bom_seen := True\<rparr>)"
    using Suc.prems by (simp add: utf8_def utf8_step_def utf8_lead_def utf8_emit_def NL_def)
  have "fst (decode_stream utf8 (d\<lparr>bom_seen := True\<rparr>) (replicate n 0x0A)) = replicate n NL"
    by (rule Suc.IH) (simp add: Suc.prems)
  with s show ?case by (simp add: split_beta)
qed

lemma splitStr_newlines: "splitStr sep (replicate n sep) = replicate (Suc n) []"
  by (induction n) simp_all

lemma splitStr_x_newlines:
  "c \<noteq> sep \<Longrightarrow> splitStr sep (c # replicate n sep) = [c] # replicate n []"
  by (cases n) (simp_all add: splitStr_newlines)

lemma consume_utf8_newlines:
  assumes "buffer st = [c]" and "c \<noteq> NL" and "bytes_needed (decoder st) = 0"
  shows "fst (consume utf8 (replicate (Suc n) 0x0A) st) = [c] # replicate n []"
    and "buffer (snd (consume utf8 (replicate (Suc n) 0x0A) st)) = []"
  using assms
  by (simp_all add: consume_fst consume_snd utf8_newlines splitStr_x_newlines
        butlast_conv_take del: splitStr.simps replicate.simps)

text \<open>
  A chunk \<^verbatim>\<open>"x"\<close> followed by a chunk of 5001 terminators produces 5001 lines, the
  first of them \<^verbatim>\<open>"x"\<close>; the store keeps the 5000 empty lines that follow it.
\<close>

theorem line_store_capped_witness:
  "pushed utf8 (streamLogFile0 utf8 Opened [] (initialState utf8))
      (map Chunk [[0x78], replicate 5001 0x0A] @ [Done]) = [0x78] # replicate 5000 []
   \<and> logLines (streamLogFile0 utf8 Opened (map Chunk [[0x78], replicate 5001 0x0A] @ [Done])
        (initialState utf8)) = replicate 5000 []"
proof -
  let ?start = "streamLogFile0 utf8 Opened [] (initialState utf8)"
  let ?st1 = "snd (consume utf8 [0x78] ?start)"
  have f1: "fst (consume utf8 [0x78] ?start) = []"
    by (simp add: consume_fst streamLogFile0_start utf8_eval)
  have b1: "buffer ?st1 = [0x78]"
    by (simp add: consume_snd streamLogFile0_start utf8_eval)
  have d1: "bytes_needed (decoder ?st1) = 0"
    by (simp add: consume_snd streamLogFile0_start utf8_eval)
  have x: "(0x78 :: jschar) \<noteq> NL"
    by (simp add: NL_def)
  have f2: "fst (consume utf8 (replicate 5001 0x0A) ?st1) = [0x78] # replicate 5000 []"
    using consume_utf8_newlines(1) [OF b1 x d1, of 5000] by simp
  have b2: "buffer (snd (consume utf8 (replicate 5001 0x0A) ?st1)) = []"
    using consume_utf8_newlines(2) [OF b1 x d1, of 5000] by simp
  have p: "pushed utf8 ?start (map Chunk [[0x78], replicate 5001 0x0A] @ [Done])
           = [0x78] # replicate 5000 []"
    by (simp add: pushed_Chunk f1 f2 b2 del: pushed.simps(3))
  have "logLines (streamLogFile0 utf8 Opened (map Chunk [[0x78], replicate 5001 0x0A] @ [Done])
          (initialState utf8))
        = mostRecent MAX_DISPLAY_LINES
            (pushed utf8 ?start (map Chunk [[0x78], replicate 5001 0x0A] @ [Done]))"
    using line_store_capped [of utf8 "[]" "initialState utf8" "[[0x78], replicate 5001 0x0A]",
        unfolded Let_def]
    by blast
  then show ?thesis
    by (simp only: p) (simp add: mostRecent_def MAX_DISPLAY_LINES_def)
qed

section \<open>Tail polls\<close>

lemma trim_nonempty_iff: "trim s \<noteq> [] \<longleftrightarrow> (\<exists>c \<in> set s. \<not> isWhiteSpace c)"
proof
  assume "trim s \<noteq> []"
  then have "dropWhile isWhiteSpace s \<noteq> []"
    by (auto simp: trim_def dest: set_dropWhileD)
  then show "\<exists>c \<in> set s. \<not> isWhiteSpace c"
    by (auto simp: dropWhile_eq_Nil_conv)
next
  assume "\<exists>c \<in> set s. \<not> isWhiteSpace c"
  then have 1: "dropWhile isWhiteSpace s \<noteq> []"
    by (auto simp: dropWhile_eq_Nil_conv)
  then have "\<not> isWhiteSpace (hd (dropWhile isWhiteSpace s))"
    by (rule hd_dropWhile)
  with 1 have "\<exists>c \<in> set (rev (dropWhile isWhiteSpace s)). \<not> isWhiteSpace c"
    by (metis hd_in_set set_rev)
  then have "dropWhile isWhiteSpace (rev (dropWhile isWhiteSpace s)) \<noteq> []"
    by (auto simp: dropWhile_eq_Nil_conv)
  then show "trim s \<noteq> []"
    by (simp add: trim_def)
qed

lemma tailLogFile_body:
  "bs \<noteq> [] \<Longrightarrow> code = 206 \<or> code = 200 \<Longrightarrow>
   tailLogFile dec Remote False (Response code (Some bs)) st =
     (if isLivePaused st then st else st\<lparr>status := ''Live''\<rparr>)
       \<lparr>logLines := logLines st @ filter (\<lambda>l. trim l \<noteq> []) (splitStr NL (decode dec bs)),
        totalBytes := totalBytes st + length bs\<rparr>"
  by (auto simp: tailLogFile_def Let_def)

lemma tailLogFile_appends:
  "\<exists>new. logLines (tailLogFile dec src hidden resp st) = logLines st @ new
         \<and> (\<forall>l \<in> set new. trim l \<noteq> [])"
proof (cases "\<exists>code bs. resp = Response code (Some bs) \<and> bs \<noteq> [] \<and> (code = 206 \<or> code = 200)
                \<and> src = Remote \<and> \<not> hidden")
  case True
  then obtain code bs where r: "resp = Response code (Some bs)" "bs \<noteq> []" "code = 206 \<or> code = 200"
      "src = Remote" "\<not> hidden"
    by blast
  have "logLines (tailLogFile dec src hidden resp st)
        = logLines st @ filter (\<lambda>l. trim l \<noteq> []) (splitStr NL (decode dec bs))"
    using r by (simp add: tailLogFile_body)
  then show ?thesis by auto
next
  case False
  then have "logLines (tailLogFile dec src hidden resp st) = logLines st"
    by (auto simp: tailLogFile_def catch_tail_def Let_def split: poll_result.splits option.splits)
  then show ?thesis by simp
qed


lemma tailLogFile_isLive: "isLive (tailLogFile dec src hidden resp st) \<Longrightarrow> isLive st"
  by (auto simp: tailLogFile_def catch_tail_def Let_def
        split: if_splits poll_result.splits option.splits)

lemma tailLogFile_failed:
  "pollFailed resp \<Longrightarrow>
   tailLogFile dec Remote False resp st = st\<lparr>status := ''Live (Error)'', isLive := False\<rparr>"
  by (auto simp: pollFailed_def tailLogFile_def catch_tail_def Let_def
        split: poll_result.splits option.splits)

text \<open>
  Claim C10. Whatever a poll receives, the lines it appends to \<^verbatim>\<open>logLines\<close> each
  contain a code unit that is not white space. On a response with status 206
  or 200 and a non-empty body, the appended lines are exactly the segments of
  the decoded body that contain such a code unit, in order (the empty and the
  white-space-only segments are dropped), and \<^verbatim>\<open>totalBytes\<close> grows by the full
  length of the body.
\<close>

theorem tail_lines_nonblank:
  "(\<exists>new. logLines (tailLogFile dec src hidden resp st) = logLines st @ new
          \<and> (\<forall>l \<in> set new. \<exists>c \<in> set l. \<not> isWhiteSpace c))
   \<and> (bs \<noteq> [] \<longrightarrow> code = 206 \<or> code = 200 \<longrightarrow>
        logLines (tailLogFile dec Remote False (Response code (Some bs)) st)
          = logLines st @
            filter (\<lambda>l. \<exists>c \<in> set l. \<not> isWhiteSpace c) (splitStr NL (decode dec bs))
        \<and> totalBytes (tailLogFile dec Remote False (Response code (Some bs)) st)
          = totalBytes st + length bs)"
  using tailLogFile_appends [of dec src hidden resp st]
  by (auto simp: tailLogFile_body trim_nonempty_iff)

text \<open>
  The six bytes \<^verbatim>\<open>" \n\nok\n"\<close> append the one line \<^verbatim>\<open>"ok"\<close> and advance the offset
  by 6.
\<close>

theorem tail_lines_nonblank_witness:
  "logLines (tailLogFile utf8 Remote False
      (Response 206 (Some ([0x20, 0x0A, 0x0A] @ bytes ''ok'' @ [0x0A]))) (initialState utf8))
     = [jstr ''ok'']
   \<and> totalBytes (tailLogFile utf8 Remote False
      (Response 206 (Some ([0x20, 0x0A, 0x0A] @ bytes ''ok'' @ [0x0A]))) (initialState utf8)) = 6"
proof -
  let ?bs = "[0x20, 0x0A, 0x0A] @ bytes ''ok'' @ [0x0A]"
  have d: "decode utf8 [0x20, 0x0A, 0x0A, 0x6F, 0x6B, 0x0A] = [0x20, 0x0A, 0x0A, 0x6F, 0x6B, 0x0A]"
    by (simp add: decode_def utf8_eval)
  have "?bs \<noteq> []" "(206 :: nat) = 206 \<or> (206 :: nat) = 200"
    by simp_all
  with tail_lines_nonblank [of utf8 Remote False "Response 206 (Some ?bs)" "initialState utf8"
      ?bs 206]
  have "logLines (tailLogFile utf8 Remote False (Response 206 (Some ?bs)) (initialState utf8))
          = logLines (initialState utf8) @
            filter (\<lambda>l. \<exists>c \<in> set l. \<not> isWhiteSpace c) (splitStr NL (decode utf8 ?bs))"
    and "totalBytes (tailLogFile utf8 Remote False (Response 206 (Some ?bs)) (initialState utf8))
          = totalBytes (initialState utf8) + length ?bs"
    by blast+
  then show ?thesis
    by (simp add: d initialState_def isWhiteSpace_def jstr_def bytes_def NL_def)
qed

lemma splitStr_two_terminated:
  "sep \<notin> set l1 \<Longrightarrow> sep \<notin> set l2 \<Longrightarrow>
   splitStr sep (l1 @ [sep] @ l2 @ [sep]) = [l1, l2, []]"
  by (simp add: splitStr_append_sep del: splitStr.simps(2))

text \<open>
  Claim C3, as amended. A poll answered with status 416 leaves \<^verbatim>\<open>totalBytes\<close> and
  \<^verbatim>\<open>logLines\<close> unchanged. A poll answered with status 206 or 200 and a non-empty
  body whose decoded text is exactly two terminated lines, each containing a
  code unit that is not white space, appends these two lines, so the store
  grows by 2, and advances \<^verbatim>\<open>totalBytes\<close> by the length of the body.
\<close>

theorem tail_poll_effect:
  "totalBytes (tailLogFile dec src hidden (Response 416 body) st) = totalBytes st
   \<and> logLines (tailLogFile dec src hidden (Response 416 body) st) = logLines st
   \<and> (bs \<noteq> [] \<longrightarrow> code = 206 \<or> code = 200 \<longrightarrow>
        decode dec bs = l1 @ [NL] @ l2 @ [NL] \<longrightarrow> NL \<notin> set l1 \<longrightarrow> NL \<notin> set l2 \<longrightarrow>
        (\<exists>c \<in> set l1. \<not> isWhiteSpace c) \<longrightarrow> (\<exists>c \<in> set l2. \<not> isWhiteSpace c) \<longrightarrow>
        logLines (tailLogFile dec Remote False (Response code (Some bs)) st)
          = logLines st @ [l1, l2]
        \<and> length (logLines (tailLogFile dec Remote False (Response code (Some bs)) st))
          = length (logLines st) + 2
        \<and> totalBytes (tailLogFile dec Remote False (Response code (Some bs)) st)
          = totalBytes st + length bs)"
proof -
  have a: "totalBytes (tailLogFile dec src hidden (Response 416 body) st) = totalBytes st"
    by (simp add: tailLogFile_def Let_def)
  have b: "logLines (tailLogFile dec src hidden (Response 416 body) st) = logLines st"
    by (simp add: tailLogFile_def Let_def)
  have c: "logLines (tailLogFile dec Remote False (Response code (Some bs)) st)
             = logLines st @ [l1, l2]
           \<and> totalBytes (tailLogFile dec Remote False (Response code (Some bs)) st)
             = totalBytes st + length bs"
    if "bs \<noteq> []" "code = 206 \<or> code = 200" "decode dec bs = l1 @ [NL] @ l2 @ [NL]"
       "NL \<notin> set l1" "NL \<notin> set l2"
       "\<exists>c \<in> set l1. \<not> isWhiteSpace c" "\<exists>c \<in> set l2. \<not> isWhiteSpace c"
  proof -
    have "splitStr NL (decode dec bs) = [l1, l2, []]"
      using that(3-5) splitStr_two_terminated [of NL l1 l2] by (simp del: splitStr.simps)
    moreover have "trim l1 \<noteq> []" "trim l2 \<noteq> []" "trim [] = []"
      using that(6,7) by (simp_all add: trim_nonempty_iff) (simp add: trim_def)
    ultimately show ?thesis
      using that(1,2) by (simp add: tailLogFile_body)
  qed
  from a b c show ?thesis by simp
qed


text \<open>The body \<^verbatim>\<open>"a\nb\n"\<close>: two lines more, four bytes more.\<close>

theorem tail_poll_effect_witness:
  "logLines (tailLogFile utf8 Remote False
      (Response 206 (Some (bytes ''a'' @ [0x0A] @ bytes ''b'' @ [0x0A]))) (initialState utf8))
     = [jstr ''a'', jstr ''b'']
   \<and> totalBytes (tailLogFile utf8 Remote False
      (Response 206 (Some (bytes ''a'' @ [0x0A] @ bytes ''b'' @ [0x0A]))) (initialState utf8)) = 4"
proof -
  let ?bs = "bytes ''a'' @ [0x0A] @ bytes ''b'' @ [0x0A]"
  have h1: "?bs \<noteq> []"
    by simp
  have h2: "(206 :: nat) = 206 \<or> (206 :: nat) = 200"
    by simp
  have d: "decode utf8 ?bs = jstr ''a'' @ [NL] @ jstr ''b'' @ [NL]"
    by (simp add: decode_def utf8_eval)
  have n: "NL \<notin> set (jstr ''a'')" "NL \<notin> set (jstr ''b'')"
    by (simp_all add: jstr_def NL_def)
  have w: "\<exists>c \<in> set (jstr ''a''). \<not> isWhiteSpace c" "\<exists>c \<in> set (jstr ''b''). \<not> isWhiteSpace c"
    by (simp_all add: jstr_def isWhiteSpace_def)
  note t = tail_poll_effect [where dec = utf8 and bs = ?bs and code = 206
      and ?l1.0 = "jstr ''a''" and ?l2.0 = "jstr ''b''" and st = "initialState utf8",
      THEN conjunct2, THEN conjunct2, rule_format, OF h1 h2 d n w]
  then show ?thesis
    by (simp add: initialState_def bytes_def)
qed

text \<open>
  The body \<^verbatim>\<open>"ok\n\n"\<close> is two terminated lines, \<^verbatim>\<open>"ok"\<close> and the empty line; the
  poll appends one line, not two.
\<close>

theorem tail_drops_blank_line_counterexample:
  "decode utf8 (bytes ''ok'' @ [0x0A, 0x0A]) = jstr ''ok'' @ [NL] @ [] @ [NL]
   \<and> length (logLines (tailLogFile utf8 Remote False
        (Response 206 (Some (bytes ''ok'' @ [0x0A, 0x0A]))) (initialState utf8)))
     = length (logLines (initialState utf8)) + 1"
  by (simp add: tailLogFile_def decode_def initialState_def trim_def isWhiteSpace_def utf8_eval)

text \<open>
  Claim C8. When a poll of a remote source fails, \<^verbatim>\<open>logLines\<close>, \<^verbatim>\<open>totalBytes\<close> and
  \<^verbatim>\<open>error\<close> are unchanged, so the error panel is shown exactly if it was shown
  before; the status is \<^verbatim>\<open>'Live (Error)'\<close>, \<^verbatim>\<open>isLive\<close> is false, the effect no longer
  arms the polling timer, and no later run of \<^verbatim>\<open>tailLogFile\<close> sets \<^verbatim>\<open>isLive\<close> again.
\<close>

theorem tail_failure_keeps_lines:
  "pollFailed resp \<Longrightarrow>
   logLines (tailLogFile dec Remote False resp st) = logLines st
   \<and> totalBytes (tailLogFile dec Remote False resp st) = totalBytes st
   \<and> error (tailLogFile dec Remote False resp st) = error st
   \<and> errorViewShown (tailLogFile dec Remote False resp st) = errorViewShown st
   \<and> status (tailLogFile dec Remote False resp st) = ''Live (Error)''
   \<and> \<not> isLive (tailLogFile dec Remote False resp st)
   \<and> \<not> tailingScheduled Remote (tailLogFile dec Remote False resp st)
   \<and> \<not> isLive (tailLogFile dec Remote hidden2 resp2 (tailLogFile dec Remote False resp st))"
proof -
  assume f: "pollFailed resp"
  have "\<not> isLive (tailLogFile dec Remote hidden2 resp2 (st\<lparr>status := ''Live (Error)'', isLive := False\<rparr>))"
    using tailLogFile_isLive [of dec Remote hidden2 resp2 "st\<lparr>status := ''Live (Error)'', isLive := False\<rparr>"]
    by auto
  then show ?thesis
    by (simp add: tailLogFile_failed [OF f] errorViewShown_def tailingScheduled_def)
qed

text \<open>
  A finished stream of one line, the user has gone live, and a poll is answered
  with status 500.
\<close>

theorem tail_failure_keeps_lines_witness:
  "pollFailed (Response 500 (Some []))
   \<and> logLines (tailLogFile utf8 Remote False (Response 500 (Some []))
        ((streamLogFile utf8 Remote Opened [Chunk (bytes ''up'' @ [0x0A]), Done]
           (initialState utf8))\<lparr>isLive := True\<rparr>)) = [jstr ''up'']
   \<and> \<not> tailingScheduled Remote (tailLogFile utf8 Remote False (Response 500 (Some []))
        ((streamLogFile utf8 Remote Opened [Chunk (bytes ''up'' @ [0x0A]), Done]
           (initialState utf8))\<lparr>isLive := True\<rparr>))
   \<and> tailingScheduled Remote
        ((streamLogFile utf8 Remote Opened [Chunk (bytes ''up'' @ [0x0A]), Done]
           (initialState utf8))\<lparr>isLive := True\<rparr>)"
proof -
  let ?st = "(streamLogFile utf8 Remote Opened [Chunk (bytes ''up'' @ [0x0A]), Done]
           (initialState utf8))\<lparr>isLive := True\<rparr>"
  have f: "pollFailed (Response 500 (Some []))"
    by (simp add: pollFailed_def)
  have l: "logLines ?st = [jstr ''up'']"
    by (simp add: streamLogFile_def initialState_def consume_def utf8_eval)
  have s: "tailingScheduled Remote ?st"
    by (simp add: tailingScheduled_def streamLogFile_def initialState_def consume_def utf8_eval)
  from tail_failure_keeps_lines [OF f, of utf8 ?st] f l s show ?thesis
    by simp
qed

text \<open>
  Claim C7. The read loop of \<^verbatim>\<open>streamLogFile\<close> keeps a fragment without terminator
  in \<^verbatim>\<open>buffer\<close>: the chunks \<^verbatim>\<open>"par"\<close> and \<^verbatim>\<open>"tial\n"\<close> give the one line
  \<^verbatim>\<open>"partial"\<close>. \<^verbatim>\<open>tailLogFile\<close> has no buffer: a poll that receives \<^verbatim>\<open>"par"\<close>
  appends it to \<^verbatim>\<open>logLines\<close> at once, and the next poll, receiving \<^verbatim>\<open>"tial\n"\<close>,
  appends \<^verbatim>\<open>"tial"\<close> as another line.
\<close>

theorem tail_appends_unterminated_fragment:
  "logLines (streamLogFile utf8 Remote Opened
      [Chunk (bytes ''par''), Chunk (bytes ''tial'' @ [0x0A])] (initialState utf8))
     = [jstr ''partial'']
   \<and> logLines (tailLogFile utf8 Remote False (Response 206 (Some (bytes ''par'')))
        (initialState utf8)) = [jstr ''par'']
   \<and> logLines (tailLogFile utf8 Remote False (Response 206 (Some (bytes ''tial'' @ [0x0A])))
        (tailLogFile utf8 Remote False (Response 206 (Some (bytes ''par'')))
           (initialState utf8))) = [jstr ''par'', jstr ''tial'']"
  by (simp add: streamLogFile_def tailLogFile_def decode_def consume_def initialState_def
        trim_def isWhiteSpace_def utf8_eval)

text \<open>The poll that receives \<^verbatim>\<open>"par"\<close> makes the store one line longer.\<close>

theorem tail_appends_unterminated_fragment_witness:
  "length (logLines (tailLogFile utf8 Remote False (Response 206 (Some (bytes ''par'')))
        (initialState utf8))) = length (logLines (initialState utf8)) + 1"
  using tail_appends_unterminated_fragment
  by (simp add: initialState_def)

section \<open>The filter\<close>






section \<open>The viewport\<close>

lemma startIndex_zero_iff: "startIndex scrollTop = 0 \<longleftrightarrow> scrollTop < 242"
proof -
  have m: "max 0 (x - 10) = 0 \<longleftrightarrow> x \<le> 10" for x :: int
    by arith
  have "startIndex scrollTop = 0 \<longleftrightarrow> \<lfloor>scrollTop / 22\<rfloor> \<le> 10"
    by (simp only: startIndex_def ROW_HEIGHT_def m)
  also have "\<dots> \<longleftrightarrow> scrollTop / 22 < 11"
    by (simp add: floor_le_iff)
  also have "\<dots> \<longleftrightarrow> scrollTop < 242"
    by (simp add: divide_less_eq)
  finally show ?thesis .
qed

lemma endIndex_empty:
  "0 \<le> scrollTop \<Longrightarrow> 0 \<le> height \<Longrightarrow> endIndex 0 scrollTop height = 0"
proof -
  assume "0 \<le> scrollTop" "0 \<le> height"
  then have "0 \<le> (scrollTop + height) / 22"
    by simp
  then have "\<lceil>0 :: real\<rceil> \<le> \<lceil>(scrollTop + height) / 22\<rceil>"
    by (rule ceiling_mono)
  then have "0 \<le> \<lceil>(scrollTop + height) / 22\<rceil>"
    by simp
  then show ?thesis
    by (simp add: endIndex_def ROW_HEIGHT_def)
qed

text \<open>
  Claim C2, as amended. \<^verbatim>\<open>startIndex\<close> and \<^verbatim>\<open>endIndex\<close> are the specification's
  formulas at row height 22 and margin 10; for 1000 rows, container height 440
  and scroll offset 2200 they are 90 and 130. With no rows, and a scroll offset
  and container height that are not negative, \<^verbatim>\<open>endIndex\<close> is 0 and no line is
  materialised; \<^verbatim>\<open>startIndex\<close> is not clamped to the number of rows, and it
  equals \<^verbatim>\<open>endIndex\<close> exactly when the scroll offset is below 242, that is 11 rows.
\<close>

theorem viewport_projection:
  "(startIndex scrollTop, endIndex totalRows scrollTop height)
     = project scrollTop height 22 totalRows 10
   \<and> startIndex 2200 = 90
   \<and> endIndex 1000 2200 440 = 130
   \<and> (0 \<le> scrollTop \<longrightarrow> 0 \<le> height \<longrightarrow>
        endIndex 0 scrollTop height = 0
        \<and> visibleLines [] scrollTop height = []
        \<and> (startIndex scrollTop = endIndex 0 scrollTop height \<longleftrightarrow> scrollTop < 242))"
proof -
  have 1: "(startIndex scrollTop, endIndex totalRows scrollTop height)
           = project scrollTop height 22 totalRows 10"
    by (simp add: startIndex_def endIndex_def project_def ROW_HEIGHT_def)
  have 2: "startIndex 2200 = 90"
    by (simp add: startIndex_def ROW_HEIGHT_def)
  have 3: "endIndex 1000 2200 440 = 130"
    by (simp add: endIndex_def ROW_HEIGHT_def)
  have 4: "visibleLines [] scrollTop height = []"
    by (simp add: visibleLines_def slice_def)
  from 1 2 3 4 show ?thesis
    by (simp add: endIndex_empty startIndex_zero_iff)
qed

text \<open>No rows, scroll offset 100: the range is from 0 to 0.\<close>

theorem viewport_projection_witness:
  "(0 :: real) \<le> 100 \<and> (0 :: real) \<le> 440
   \<and> startIndex 100 = 0 \<and> endIndex 0 100 440 = 0 \<and> visibleLines [] 100 440 = []"
  using viewport_projection [of 100 0 440]
  by simp

text \<open>No rows, scroll offset 2200: the range is from 90 to 0.\<close>

theorem viewport_empty_range_counterexample:
  "startIndex 2200 = 90 \<and> endIndex 0 2200 440 = 0
   \<and> startIndex 2200 \<noteq> endIndex 0 2200 440"
  by (simp add: startIndex_def endIndex_def ROW_HEIGHT_def)

end
